theory Spec2Isabelle
  imports Complex_Main "HOL-Library.Sublist" "HOL-Library.Extended_Nat"
begin

section \<open>Strings\<close>

text \<open>
  A Python \<open>str\<close> is modelled as a \<open>string\<close> in which every \<open>char\<close> stands for one
  code point in the range U+0000 .. U+00FF, so that \<open>length\<close> is Python's \<open>len\<close>.
  Whitespace and lower-casing are the ones Python defines on that range.
\<close>

definition newline :: char where
  "newline = CHR 0x0A"

text \<open>\<open>str.isspace\<close> on one character; the regular expression class \<open>\s\<close> is the same set.\<close>

definition is_space :: "char \<Rightarrow> bool" where
  "is_space c =
     (let n = (of_char c :: nat)
      in (9 \<le> n \<and> n \<le> 13) \<or> (28 \<le> n \<and> n \<le> 32) \<or> n = 133 \<or> n = 160)"

text \<open>The regular expression class \<open>\d\<close>: the decimal digits.\<close>

definition is_digit :: "char \<Rightarrow> bool" where
  "is_digit c = (let n = (of_char c :: nat) in 48 \<le> n \<and> n \<le> 57)"

definition lower_char :: "char \<Rightarrow> char" where
  "lower_char c =
     (let n = (of_char c :: nat)
      in if (65 \<le> n \<and> n \<le> 90) \<or> (192 \<le> n \<and> n \<le> 222 \<and> n \<noteq> 215)
         then char_of (n + 32) else c)"

text \<open>\<open>s.lower()\<close>\<close>

definition lower :: "string \<Rightarrow> string" where
  "lower s = map lower_char s"

text \<open>\<open>s.strip()\<close>\<close>

definition strip :: "string \<Rightarrow> string" where
  "strip s = rev (dropWhile is_space (rev (dropWhile is_space s)))"

text \<open>\<open>s.startswith(p)\<close>\<close>

definition startswith :: "string \<Rightarrow> string \<Rightarrow> bool" where
  "startswith s p = prefix p s"

text \<open>\<open>sub in s\<close>: \<open>sub\<close> occurs in \<open>s\<close> as a contiguous substring.\<close>

fun py_in :: "string \<Rightarrow> string \<Rightarrow> bool" where
  "py_in sub [] = (sub = [])"
| "py_in sub (c # cs) = (prefix sub (c # cs) \<or> py_in sub cs)"

text \<open>\<open>sep.join(xs)\<close>\<close>

fun join :: "string \<Rightarrow> string list \<Rightarrow> string" where
  "join sep [] = []"
| "join sep [x] = x"
| "join sep (x # y # ys) = x @ sep @ join sep (y # ys)"

text \<open>\<open>content.split("\n")\<close>: never empty, one more piece than there are newlines.\<close>

fun split_lines :: "string \<Rightarrow> string list" where
  "split_lines [] = [[]]"
| "split_lines (c # cs) =
     (if c = newline then [] # split_lines cs
      else (case split_lines cs of
              [] \<Rightarrow> [[c]]
            | l # ls \<Rightarrow> (c # l) # ls))"

section \<open>The regular expressions of \<open>medical_data/browser.py\<close>\<close>

subsection \<open>The category header \<open>^##\s+\d+\.\s+(.+)$\<close>\<close>

text \<open>
  \<open>(.+)$\<close> at \<open>t\<close>: the dot does not match a newline, and \<open>$\<close> matches at the end of the
  string or just before a newline that ends it.
\<close>

definition dot_plus_end :: "string \<Rightarrow> string option" where
  "dot_plus_end t =
     (let x = takeWhile (\<lambda>c. c \<noteq> newline) t;
          tl' = dropWhile (\<lambda>c. c \<noteq> newline) t
      in if x \<noteq> [] \<and> (tl' = [] \<or> tl' = [newline]) then Some x else None)"

text \<open>
  \<open>\s+(.+)$\<close> at \<open>t\<close>: the greedy \<open>\s+\<close> first takes every whitespace character and gives
  them back one at a time while the rest of the pattern fails.
\<close>

fun ws_group :: "string \<Rightarrow> string option" where
  "ws_group [] = None"
| "ws_group (c # cs) =
     (if is_space c
      then (case ws_group cs of Some g \<Rightarrow> Some g | None \<Rightarrow> dot_plus_end cs)
      else None)"

text \<open>
  \<open>re.match(r"^##\s+\d+\.\s+(.+)$", s)\<close>, returning \<open>group(1)\<close> of the match.
  A whitespace run is followed by a digit and a digit run by the dot, so only the
  longest runs can match there.
\<close>

definition category_match :: "string \<Rightarrow> string option" where
  "category_match s =
     (if prefix ''##'' s then
        (let r1 = drop 2 s;
             w = takeWhile is_space r1;
             r2 = dropWhile is_space r1;
             d = takeWhile is_digit r2;
             r3 = dropWhile is_digit r2
         in if w \<noteq> [] \<and> d \<noteq> [] then
              (case r3 of
                 [] \<Rightarrow> None
               | c # r4 \<Rightarrow> if c = CHR ''.'' then ws_group r4 else None)
            else None)
      else None)"

subsection \<open>Removing emphasis: \<open>re.sub(d(.+?)d, \1, s)\<close>\<close>

text \<open>
  \<open>(.+?)d\<close> at \<open>t\<close> for a delimiter \<open>d\<close>: the lazy group takes one character that is not
  a newline, then as few more as are needed for \<open>d\<close> to follow. The result is the group
  and the text after the closing delimiter.
\<close>

fun scan_lazy :: "string \<Rightarrow> string \<Rightarrow> (string \<times> string) option" where
  "scan_lazy d [] = None"
| "scan_lazy d (c # cs) =
     (if c = newline then None
      else if prefix d cs then Some ([c], drop (length d) cs)
      else (case scan_lazy d cs of
              None \<Rightarrow> None
            | Some (g, r) \<Rightarrow> Some (c # g, r)))"

lemma scan_lazy_shorter: "scan_lazy d t = Some (g, r) \<Longrightarrow> length r < length t"
  by (induction t arbitrary: g r) (auto split: if_splits option.splits)

text \<open>
  \<open>re.sub\<close> replaces the matches found from left to right, each search starting where
  the previous match ended; text that is in no match is copied.
\<close>

function sub_delim :: "string \<Rightarrow> string \<Rightarrow> string" where
  "sub_delim d [] = []"
| "sub_delim d (c # cs) =
     (if prefix d (c # cs) then
        (case scan_lazy d (drop (length d) (c # cs)) of
           Some (g, r) \<Rightarrow> g @ sub_delim d r
         | None \<Rightarrow> c # sub_delim d cs)
      else c # sub_delim d cs)"
  by pat_completeness auto
termination
proof (relation "measure (\<lambda>(d, s). length s)")
  show "wf (measure (\<lambda>(d, s). length s))" by simp
next
  fix d :: string and c cs x2 g r
  assume "scan_lazy d (drop (length d) (c # cs)) = Some x2" and "(g, r) = x2"
  then have "length r < length (drop (length d) (c # cs))"
    using scan_lazy_shorter by metis
  then show "((d, r), (d, c # cs)) \<in> measure (\<lambda>(d, s). length s)" by simp
qed simp_all

subsection \<open>Links: \<open>re.sub(r"\[([^\]]+)\]\([^\)]+\)", \1, s)\<close>\<close>

text \<open>
  The link pattern at \<open>t\<close>, the text after an opening bracket. A run of characters other
  than the closing bracket must be followed by that bracket, so only the longest run can
  match; the same holds for the parenthesised part.
\<close>

definition link_at :: "string \<Rightarrow> (string \<times> string) option" where
  "link_at t =
     (let g = takeWhile (\<lambda>c. c \<noteq> CHR '']'') t;
          r = dropWhile (\<lambda>c. c \<noteq> CHR '']'') t
      in if g \<noteq> [] \<and> prefix '']('' r then
           (let u = takeWhile (\<lambda>c. c \<noteq> CHR '')'') (drop 2 r);
                r' = dropWhile (\<lambda>c. c \<noteq> CHR '')'') (drop 2 r)
            in if u \<noteq> [] \<and> r' \<noteq> [] then Some (g, tl r') else None)
         else None)"

lemma link_at_shorter: "link_at t = Some (g, r) \<Longrightarrow> length r < Suc (length t)"
proof -
  assume a: "link_at t = Some (g, r)"
  let ?r = "dropWhile (\<lambda>c. c \<noteq> CHR '']'') t"
  let ?r' = "dropWhile (\<lambda>c. c \<noteq> CHR '')'') (drop 2 ?r)"
  from a have "r = tl ?r'"
    by (auto simp: link_at_def Let_def split: if_splits)
  moreover have "length ?r' \<le> length (drop 2 ?r)" by (rule length_dropWhile_le)
  moreover have "length ?r \<le> length t" by (rule length_dropWhile_le)
  ultimately show ?thesis by simp
qed

function sub_link :: "string \<Rightarrow> string" where
  "sub_link [] = []"
| "sub_link (c # cs) =
     (if c = CHR ''['' then
        (case link_at cs of
           Some (g, r) \<Rightarrow> g @ sub_link r
         | None \<Rightarrow> c # sub_link cs)
      else c # sub_link cs)"
  by pat_completeness auto
termination
proof (relation "measure length")
  show "wf (measure length)" by simp
next
  fix c :: char and cs x2 g r
  assume "link_at cs = Some x2" and "(g, r) = x2"
  then have "length r < Suc (length cs)"
    using link_at_shorter by metis
  then show "(r, c # cs) \<in> measure length" by simp
qed simp_all

subsection \<open>URLs: \<open>re.search(r"https?://[^\s\)]+", s)\<close>\<close>

definition url_body :: "string \<Rightarrow> string" where
  "url_body t = takeWhile (\<lambda>c. \<not> is_space c \<and> c \<noteq> CHR '')'') t"

text \<open>The pattern at the start of \<open>s\<close>; the value is \<open>group(0)\<close>.\<close>

definition url_at :: "string \<Rightarrow> string option" where
  "url_at s =
     (if prefix ''https://'' s then
        (if url_body (drop 8 s) \<noteq> [] then Some (''https://'' @ url_body (drop 8 s)) else None)
      else if prefix ''http://'' s then
        (if url_body (drop 7 s) \<noteq> [] then Some (''http://'' @ url_body (drop 7 s)) else None)
      else None)"

text \<open>\<open>_extract_url\<close>: the first match, or \<open>None\<close>.\<close>

fun extract_url :: "string \<Rightarrow> string option" where
  "extract_url [] = None"
| "extract_url (c # cs) =
     (case url_at (c # cs) of
        Some u \<Rightarrow> Some u
      | None \<Rightarrow> extract_url cs)"

text \<open>\<open>_clean_markdown\<close>: bold, italic (star, then underscore), code, links, then \<open>strip\<close>.\<close>

definition clean_markdown :: "string \<Rightarrow> string" where
  "clean_markdown text =
     strip (sub_link (sub_delim ''`'' (sub_delim ''_'' (sub_delim ''*'' (sub_delim ''__'' text)))))"

section \<open>The record model\<close>

record MedicalDataset =
  name :: string
  category :: string
  description :: string
  paper_url :: "string option"
  access_url :: "string option"
  data_url :: "string option"
  information_url :: "string option"
  overview_url :: "string option"
  requires_registration :: bool
  raw_text :: string

section \<open>\<open>MedicalDataBrowser._parse_dataset_section\<close>\<close>

text \<open>The local variables of the loop over \<open>lines[1:]\<close>.\<close>

record section_vars =
  description_lines :: "string list"
  v_paper_url :: "string option"
  v_access_url :: "string option"
  v_data_url :: "string option"
  v_information_url :: "string option"
  v_overview_url :: "string option"
  v_requires_registration :: bool

definition section_init :: section_vars where
  "section_init =
     \<lparr>description_lines = [], v_paper_url = None, v_access_url = None, v_data_url = None,
      v_information_url = None, v_overview_url = None, v_requires_registration = False\<rparr>"

text \<open>The \<open>if\<close>/\<open>elif\<close> chain on the lower-cased prefix of a stripped, non-empty line.\<close>

definition assign_line :: "section_vars \<Rightarrow> string \<Rightarrow> section_vars" where
  "assign_line v line =
     (let line_lower = lower line
      in if startswith line_lower ''paper:'' then v\<lparr>v_paper_url := extract_url line\<rparr>
         else if startswith line_lower ''access:'' then v\<lparr>v_access_url := extract_url line\<rparr>
         else if startswith line_lower ''data:'' then v\<lparr>v_data_url := extract_url line\<rparr>
         else if startswith line_lower ''information:''
           then v\<lparr>v_information_url := extract_url line\<rparr>
         else if startswith line_lower ''overview:''
           then v\<lparr>v_overview_url := extract_url line\<rparr>
         else (let clean_line = clean_markdown line
               in if clean_line \<noteq> []
                  then v\<lparr>description_lines := description_lines v @ [clean_line]\<rparr>
                  else v))"

text \<open>One iteration of the loop: strip, skip a blank line, registration check, prefixes.\<close>

definition section_line :: "section_vars \<Rightarrow> string \<Rightarrow> section_vars" where
  "section_line v raw =
     (let line = strip raw
      in if line = [] then v
         else assign_line
                (if py_in ''requires registration'' (lower line)
                 then v\<lparr>v_requires_registration := True\<rparr> else v)
                line)"

text \<open>The dataset built from a non-empty list of lines.\<close>

definition dataset_of_section :: "string list \<Rightarrow> string \<Rightarrow> MedicalDataset" where
  "dataset_of_section lines cat =
     (let name_line = strip (hd lines);
          v = foldl section_line section_init (tl lines)
      in \<lparr>name = sub_delim ''__'' name_line,
          category = cat,
          description = join '' '' (description_lines v),
          paper_url = v_paper_url v,
          access_url = v_access_url v,
          data_url = v_data_url v,
          information_url = v_information_url v,
          overview_url = v_overview_url v,
          requires_registration = v_requires_registration v,
          raw_text = join [newline] lines\<rparr>)"

text \<open>
  \<open>_parse_dataset_section(lines, category)\<close>, with \<open>self.datasets\<close> passed in and returned:
  nothing happens on an empty list, otherwise one dataset is appended.
\<close>

definition parse_dataset_section ::
  "string list \<Rightarrow> string \<Rightarrow> MedicalDataset list \<Rightarrow> MedicalDataset list" where
  "parse_dataset_section lines cat ds =
     (if lines = [] then ds else ds @ [dataset_of_section lines cat])"

section \<open>\<open>MedicalDataBrowser.parse_readme\<close>\<close>

text \<open>The local variables of the loop over the lines, and \<open>self.datasets\<close>.\<close>

record parse_state =
  current_category :: string
  current_dataset_lines :: "string list"
  in_dataset :: bool
  datasets :: "MedicalDataset list"

text \<open>
  \<open>if current_dataset_lines and current_category: self._parse_dataset_section(...)\<close>
\<close>

definition flush :: "parse_state \<Rightarrow> MedicalDataset list" where
  "flush st =
     (if current_dataset_lines st \<noteq> [] \<and> current_category st \<noteq> []
      then parse_dataset_section (current_dataset_lines st) (current_category st) (datasets st)
      else datasets st)"

text \<open>The body of the loop for one line.\<close>

definition parse_line :: "parse_state \<Rightarrow> string \<Rightarrow> parse_state" where
  "parse_line st line =
     (case category_match (strip line) of
        Some g \<Rightarrow>
          \<lparr>current_category = strip g, current_dataset_lines = [], in_dataset = False,
           datasets = flush st\<rparr>
      | None \<Rightarrow>
          if strip line = ''***'' then
            \<lparr>current_category = current_category st, current_dataset_lines = [],
             in_dataset = False, datasets = flush st\<rparr>
          else if startswith (strip line) ''__'' \<and> current_category st \<noteq> [] then
            \<lparr>current_category = current_category st, current_dataset_lines = [line],
             in_dataset = True,
             datasets = (if current_dataset_lines st \<noteq> []
                         then parse_dataset_section (current_dataset_lines st)
                                (current_category st) (datasets st)
                         else datasets st)\<rparr>
          else if in_dataset st \<and> strip line \<noteq> [] then
            st\<lparr>current_dataset_lines := current_dataset_lines st @ [line]\<rparr>
          else st)"

text \<open>
  The loop and the handling of the last dataset, from the lines of the file and the
  datasets the browser already holds to the datasets it holds afterwards.
\<close>

definition parse_lines :: "string list \<Rightarrow> MedicalDataset list \<Rightarrow> MedicalDataset list" where
  "parse_lines ls ds =
     flush (foldl parse_line
              \<lparr>current_category = [], current_dataset_lines = [], in_dataset = False,
               datasets = ds\<rparr> ls)"

datatype error = IOError | TypeError | ValueError

text \<open>
  \<open>parse_readme\<close>. Reading the file either fails (\<open>None\<close>, re-raised as \<open>IOError\<close>) or gives
  its text; \<open>self.datasets\<close> is the second argument and the result.
\<close>

definition parse_readme ::
  "string option \<Rightarrow> MedicalDataset list \<Rightarrow> error + MedicalDataset list" where
  "parse_readme file ds =
     (case file of
        None \<Rightarrow> Inl IOError
      | Some content \<Rightarrow> Inr (parse_lines (split_lines content) ds))"

section \<open>Queries\<close>

text \<open>\<open>search_datasets(query, case_sensitive)\<close> over \<open>self.datasets\<close>\<close>

definition search_datasets ::
  "string \<Rightarrow> bool \<Rightarrow> MedicalDataset list \<Rightarrow> MedicalDataset list" where
  "search_datasets query case_sensitive ds =
     (let q = (if \<not> case_sensitive then lower query else query)
      in filter (\<lambda>d. let search_text = name d @ '' '' @ description d
                      in py_in q (if \<not> case_sensitive then lower search_text else search_text))
           ds)"

text \<open>
  \<open>category_counts[c] = category_counts.get(c, 0) + 1\<close> on a dictionary kept as an
  association list in insertion order, which is the order \<open>items()\<close> iterates in.
\<close>

fun bump :: "string \<Rightarrow> (string \<times> nat) list \<Rightarrow> (string \<times> nat) list" where
  "bump c [] = [(c, 1)]"
| "bump c ((k, n) # kvs) = (if k = c then (k, n + 1) # kvs else (k, n) # bump c kvs)"

definition category_counts :: "MedicalDataset list \<Rightarrow> (string \<times> nat) list" where
  "category_counts ds = foldl (\<lambda>m d. bump (category d) m) [] ds"

text \<open>
  \<open>sorted(items, key=count, reverse=True)\<close>: the stable sort, which for \<open>reverse=True\<close>
  reverses the list, sorts it in ascending order and reverses the result.
\<close>

definition list_categories :: "MedicalDataset list \<Rightarrow> (string \<times> nat) list" where
  "list_categories ds = rev (sort_key snd (rev (category_counts ds)))"

section \<open>\<open>create_summary_statistics\<close> of \<open>medical_data/utils.py\<close>\<close>

text \<open>The argument is any Python value: a list of datasets, or something that is no list.\<close>

datatype py_arg = PyList "MedicalDataset list" | PyOther

record url_statistics =
  paper_urls :: nat
  access_urls :: nat
  data_urls :: nat
  information_urls :: nat
  overview_urls :: nat

text \<open>
  The minimum starts as \<open>float("inf")\<close>, here \<open>\<infinity>\<close>. The average is the exact quotient;
  the rounding of Python's float division is not modelled.
\<close>

record description_statistics =
  with_description :: nat
  average_description_length :: rat
  max_description_length :: nat
  min_description_length :: enat

record summary_statistics =
  total_datasets :: nat
  categories :: "string set"
  s_category_counts :: "(string \<times> nat) list"
  datasets_with_papers :: nat
  datasets_with_access :: nat
  datasets_requiring_registration :: nat
  url_stats :: url_statistics
  description_stats :: description_statistics
  unique_categories :: nat

text \<open>The truth value of an \<open>Optional[str]\<close>: neither \<open>None\<close> nor the empty string.\<close>

definition truthy :: "string option \<Rightarrow> bool" where
  "truthy u = (case u of None \<Rightarrow> False | Some s \<Rightarrow> s \<noteq> [])"

definition stats_init :: "MedicalDataset list \<Rightarrow> summary_statistics" where
  "stats_init ds =
     \<lparr>total_datasets = length ds, categories = {}, s_category_counts = [],
      datasets_with_papers = 0, datasets_with_access = 0,
      datasets_requiring_registration = 0,
      url_stats = \<lparr>paper_urls = 0, access_urls = 0, data_urls = 0, information_urls = 0,
                   overview_urls = 0\<rparr>,
      description_stats = \<lparr>with_description = 0, average_description_length = 0,
                           max_description_length = 0, min_description_length = \<infinity>\<rparr>,
      unique_categories = 0\<rparr>"

text \<open>Category tracking.\<close>

definition track_category :: "MedicalDataset \<Rightarrow> summary_statistics \<Rightarrow> summary_statistics" where
  "track_category d s =
     s\<lparr>categories := insert (category d) (categories s),
       s_category_counts := bump (category d) (s_category_counts s)\<rparr>"

text \<open>URL tracking: the paper URL, then the four access attributes in turn.\<close>

definition track_urls :: "MedicalDataset \<Rightarrow> summary_statistics \<Rightarrow> summary_statistics" where
  "track_urls d s =
     (let s1 = (if truthy (paper_url d)
                then s\<lparr>datasets_with_papers := datasets_with_papers s + 1,
                       url_stats := (url_stats s)\<lparr>paper_urls := paper_urls (url_stats s) + 1\<rparr>\<rparr>
                else s);
          u0 = url_stats s1;
          u1 = (if truthy (access_url d) then u0\<lparr>access_urls := access_urls u0 + 1\<rparr> else u0);
          u2 = (if truthy (data_url d) then u1\<lparr>data_urls := data_urls u1 + 1\<rparr> else u1);
          u3 = (if truthy (information_url d)
                then u2\<lparr>information_urls := information_urls u2 + 1\<rparr> else u2);
          u4 = (if truthy (overview_url d)
                then u3\<lparr>overview_urls := overview_urls u3 + 1\<rparr> else u3);
          has_access = (truthy (access_url d) \<or> truthy (data_url d)
                        \<or> truthy (information_url d) \<or> truthy (overview_url d));
          s2 = s1\<lparr>url_stats := u4\<rparr>
      in if has_access then s2\<lparr>datasets_with_access := datasets_with_access s2 + 1\<rparr> else s2)"

definition track_registration ::
  "MedicalDataset \<Rightarrow> summary_statistics \<Rightarrow> summary_statistics" where
  "track_registration d s =
     (if requires_registration d
      then s\<lparr>datasets_requiring_registration := datasets_requiring_registration s + 1\<rparr>
      else s)"

text \<open>Description statistics, with the list \<open>description_lengths\<close> beside the dictionary.\<close>

definition track_description ::
  "MedicalDataset \<Rightarrow> summary_statistics \<times> nat list \<Rightarrow> summary_statistics \<times> nat list" where
  "track_description d sl =
     (case sl of (s, description_lengths) \<Rightarrow>
        if description d \<noteq> [] then
          (let desc_len = length (description d);
               ds = description_stats s
           in (s\<lparr>description_stats :=
                    ds\<lparr>with_description := with_description ds + 1,
                       max_description_length := max (max_description_length ds) desc_len,
                       min_description_length :=
                         min (min_description_length ds) (enat desc_len)\<rparr>\<rparr>,
               description_lengths @ [desc_len]))
        else (s, description_lengths))"

text \<open>The body of the loop over the datasets.\<close>

definition stats_step ::
  "summary_statistics \<times> nat list \<Rightarrow> MedicalDataset \<Rightarrow> summary_statistics \<times> nat list" where
  "stats_step sl d =
     (case sl of (s, description_lengths) \<Rightarrow>
        track_description d
          (track_registration d (track_urls d (track_category d s)), description_lengths))"

text \<open>After the loop: the average or the zero minimum, and the number of categories.\<close>

definition stats_finish :: "summary_statistics \<times> nat list \<Rightarrow> summary_statistics" where
  "stats_finish sl =
     (case sl of (s, description_lengths) \<Rightarrow>
        (let ds = description_stats s;
             ds' = (if description_lengths \<noteq> []
                    then ds\<lparr>average_description_length :=
                              of_nat (sum_list description_lengths)
                                / of_nat (length description_lengths)\<rparr>
                    else ds\<lparr>min_description_length := 0\<rparr>)
         in s\<lparr>description_stats := ds', unique_categories := card (categories s)\<rparr>))"

definition create_summary_statistics :: "py_arg \<Rightarrow> error + summary_statistics" where
  "create_summary_statistics arg =
     (case arg of
        PyOther \<Rightarrow> Inl TypeError
      | PyList ds \<Rightarrow>
          if ds = [] then Inl ValueError
          else Inr (stats_finish (foldl stats_step (stats_init ds, []) ds)))"

section \<open>The example document\<close>

definition example_document :: string where
  "example_document =
     join [newline]
       [''## 1. Imaging'', '''',
        ''__Alpha Set__'', '''',
        ''A chest scan corpus. Requires registration.'', '''',
        ''Paper: https://x.org/a'', '''',
        ''***'', '''',
        ''__Beta Set__'', '''',
        ''Access: https://y.org/b'']"

definition alpha_set :: MedicalDataset where
  "alpha_set =
     \<lparr>name = ''Alpha Set'', category = ''Imaging'',
      description = ''A chest scan corpus. Requires registration.'',
      paper_url = Some ''https://x.org/a'', access_url = None, data_url = None,
      information_url = None, overview_url = None, requires_registration = True,
      raw_text =
        join [newline]
          [''__Alpha Set__'', ''A chest scan corpus. Requires registration.'',
           ''Paper: https://x.org/a'']\<rparr>"

definition beta_set :: MedicalDataset where
  "beta_set =
     \<lparr>name = ''Beta Set'', category = ''Imaging'', description = [],
      paper_url = None, access_url = Some ''https://y.org/b'', data_url = None,
      information_url = None, overview_url = None, requires_registration = False,
      raw_text = join [newline] [''__Beta Set__'', ''Access: https://y.org/b'']\<rparr>"

section \<open>\<open>check_registration_required\<close> of \<open>utils.py\<close>\<close>

text \<open>
  The list \<open>keywords\<close> and \<open>any(keyword in text.lower() for keyword in keywords)\<close>.
\<close>

definition registration_keywords :: "string list" where
  "registration_keywords =
     [''requires registration'', ''registration required'', ''sign up required'',
      ''account required'']"

definition check_registration_required :: "string \<Rightarrow> bool" where
  "check_registration_required text = list_ex (\<lambda>keyword. py_in keyword (lower text)) registration_keywords"

section \<open>\<open>MedicalDataBrowser._extract_dataset_info\<close> of \<open>medical_data_browser.py\<close>\<close>

text \<open>The dataclass of the older script: no overview URL and no raw text.\<close>

record LegacyDataset =
  l_name :: string
  l_category :: string
  l_description :: string
  l_paper_url :: "string option"
  l_access_url :: "string option"
  l_information_url :: "string option"
  l_data_url :: "string option"
  l_requires_registration :: bool
  l_additional_info :: "string option"

text \<open>\<open>re.search(r'__(.+?)__', s)\<close>, returning \<open>group(1)\<close> of the first match.\<close>

fun search_bold :: "string \<Rightarrow> string option" where
  "search_bold [] = None"
| "search_bold (c # cs) =
     (if prefix ''__'' (c # cs) then
        (case scan_lazy ''__'' (drop 2 (c # cs)) of
           Some (g, r) \<Rightarrow> Some g
         | None \<Rightarrow> search_bold cs)
      else search_bold cs)"

text \<open>\<open>s.strip('#')\<close>\<close>

definition strip_hash :: "string \<Rightarrow> string" where
  "strip_hash s =
     rev (dropWhile (\<lambda>c. c = CHR ''#'') (rev (dropWhile (\<lambda>c. c = CHR ''#'') s)))"

text \<open>The local variables of the loop over \<open>lines[1:]\<close>.\<close>

record legacy_vars =
  lv_description_lines :: "string list"
  lv_paper_url :: "string option"
  lv_access_url :: "string option"
  lv_information_url :: "string option"
  lv_data_url :: "string option"
  lv_requires_registration :: bool

text \<open>
  One iteration. An overview line fills \<open>information_url\<close> only while that is \<open>None\<close> or
  empty; the last branch takes a non-empty line that starts with none of the five
  capitalised labels.
\<close>

definition legacy_line :: "legacy_vars \<Rightarrow> string \<Rightarrow> legacy_vars" where
  "legacy_line v raw =
     (let line = strip raw;
          v1 = (if py_in ''requires registration'' (lower line)
                then v\<lparr>lv_requires_registration := True\<rparr> else v)
      in if startswith (lower line) ''paper:'' then v1\<lparr>lv_paper_url := extract_url line\<rparr>
         else if startswith (lower line) ''access:'' then v1\<lparr>lv_access_url := extract_url line\<rparr>
         else if startswith (lower line) ''information:''
           then v1\<lparr>lv_information_url := extract_url line\<rparr>
         else if startswith (lower line) ''data:'' then v1\<lparr>lv_data_url := extract_url line\<rparr>
         else if startswith (lower line) ''overview:''
           then (if \<not> truthy (lv_information_url v1)
                 then v1\<lparr>lv_information_url := extract_url line\<rparr> else v1)
         else if line \<noteq> []
                 \<and> \<not> list_ex (startswith line)
                       [''Paper:'', ''Access:'', ''Information:'', ''Data:'', ''Overview:'']
           then (let clean_line = sub_delim ''__'' line
                 in if clean_line \<noteq> []
                    then v1\<lparr>lv_description_lines := lv_description_lines v1 @ [clean_line]\<rparr>
                    else v1)
         else v1)"

text \<open>
  The function: \<open>None\<close> for a name of fewer than three characters, otherwise the dataset.
\<close>

definition extract_dataset_info :: "string \<Rightarrow> string \<Rightarrow> LegacyDataset option" where
  "extract_dataset_info section cat =
     (let lines = split_lines (strip section) in
      if lines = [] then None
      else
        (let nm = (case search_bold (hd lines) of
                     Some g \<Rightarrow> g
                   | None \<Rightarrow> strip (strip_hash (hd lines)))
         in if nm = [] \<or> length nm < 3 then None
            else
              (let v = foldl legacy_line
                         \<lparr>lv_description_lines = [], lv_paper_url = None, lv_access_url = None,
                          lv_information_url = None, lv_data_url = None,
                          lv_requires_registration = False\<rparr>
                         (tl lines)
               in Some \<lparr>l_name = nm, l_category = cat,
                         l_description = strip (join '' '' (lv_description_lines v)),
                         l_paper_url = lv_paper_url v, l_access_url = lv_access_url v,
                         l_information_url = lv_information_url v,
                         l_data_url = lv_data_url v,
                         l_requires_registration = lv_requires_registration v,
                         l_additional_info = None\<rparr>)))"

section \<open>Further documents and notions used in the statements\<close>

text \<open>A category header followed by a title of two characters.\<close>

definition short_title_document :: string where
  "short_title_document = join [newline] [''## 1. Imaging'', '''', ''__ab__'']"

text \<open>The lengths of the non-empty descriptions, in the order of the datasets.\<close>

definition desc_lengths :: "MedicalDataset list \<Rightarrow> nat list" where
  "desc_lengths ds =
     map (\<lambda>d. length (description d)) (filter (\<lambda>d. description d \<noteq> []) ds)"

text \<open>A record whose description line says "Registration required."\<close>

definition registration_document :: string where
  "registration_document =
     join [newline] [''## 1. Imaging'', '''', ''__Alpha Set__'', '''', ''Registration required.'']"

text \<open>A record whose only metadata line is an overview line.\<close>

definition overview_lines :: "string list" where
  "overview_lines = [''__Alpha Set__'', ''Overview: https://x.org/o'']"

text \<open>An information line followed by an overview line.\<close>

definition information_overview_lines :: "string list" where
  "information_overview_lines =
     [''__Alpha Set__'', ''Information: https://x.org/i'', ''Overview: https://x.org/o'']"

text \<open>Four datasets of three categories.\<close>

definition mixed_datasets :: "MedicalDataset list" where
  "mixed_datasets =
     [alpha_set\<lparr>category := ''Text''\<rparr>, beta_set, alpha_set\<lparr>category := ''Speech''\<rparr>, alpha_set]"

text \<open>A line that is no header and no separator and does not start a record.\<close>

definition plain_line :: "string \<Rightarrow> bool" where
  "plain_line b =
     (category_match (strip b) = None \<and> strip b \<noteq> ''***'' \<and> \<not> startswith (strip b) ''__'')"

text \<open>The parser in a category, with one title line accumulated.\<close>

definition pending_state :: parse_state where
  "pending_state =
     \<lparr>current_category = ''Imaging'', current_dataset_lines = [''__Alpha Set__''],
      in_dataset = True, datasets = []\<rparr>"

text \<open>The trimmed title of a numbered section header line, as \<open>parse_readme\<close> takes it.\<close>

definition header_title :: "string \<Rightarrow> string option" where
  "header_title l = map_option strip (category_match (strip l))"

text \<open>
  A record placed in the lines \<open>ls\<close>: its title line is some line \<open>j\<close>, a header with the
  record's category is some line \<open>i\<close> before it, and no header lies between them.
\<close>

definition record_placed :: "string list \<Rightarrow> MedicalDataset \<Rightarrow> bool" where
  "record_placed ls d =
     (name d \<noteq> [] \<and> category d \<noteq> []
      \<and> (\<exists>i j. i < j \<and> j < length ls
             \<and> header_title (ls ! i) = Some (category d)
             \<and> (\<forall>k. i < k \<and> k < j \<longrightarrow> header_title (ls ! k) = None)
             \<and> startswith (strip (ls ! j)) ''__''
             \<and> name d = sub_delim ''__'' (strip (ls ! j))
             \<and> (\<exists>rest. raw_text d = join [newline] (ls ! j # rest))))"

text \<open>What holds of the parser's variables after the lines \<open>ls\<close>.\<close>

definition parser_inv :: "string list \<Rightarrow> parse_state \<Rightarrow> bool" where
  "parser_inv ls st =
     ((\<forall>d\<in>set (datasets st). record_placed ls d)
      \<and> (current_category st \<noteq> [] \<longrightarrow>
            (\<exists>i<length ls. header_title (ls ! i) = Some (current_category st)
               \<and> (\<forall>k. i < k \<and> k < length ls \<longrightarrow> header_title (ls ! k) = None)))
      \<and> (current_dataset_lines st \<noteq> [] \<longrightarrow>
            (\<exists>j<length ls. ls ! j = hd (current_dataset_lines st)
               \<and> startswith (strip (ls ! j)) ''__''
               \<and> (\<forall>k. j \<le> k \<and> k < length ls \<longrightarrow> header_title (ls ! k) = None)))
      \<and> (in_dataset st \<longrightarrow> current_dataset_lines st \<noteq> []))"

section \<open>The example of the specification\<close>

text \<open>
  Claim C1. Parsing the example document with a fresh browser gives exactly two records:
  Alpha Set (category Imaging, paper URL https://x.org/a, registration required, a
  description containing "chest scan corpus") and Beta Set (category Imaging, access URL
  https://y.org/b, no registration, empty description). \<open>list_categories\<close> then returns
  the single pair (Imaging, 2) and searching for "chest" returns exactly Alpha Set.
\<close>

theorem example_document_parsed:
  "parse_readme (Some example_document) [] = Inr [alpha_set, beta_set]
   \<and> py_in ''chest scan corpus'' (description alpha_set)
   \<and> description beta_set = []
   \<and> list_categories [alpha_set, beta_set] = [(''Imaging'', 2)]
   \<and> search_datasets ''chest'' False [alpha_set, beta_set] = [alpha_set]"
  by code_simp

section \<open>Stripped strings and header titles\<close>

lemma strip_Nil_iff: "(strip s = []) = (\<forall>c\<in>set s. is_space c)"
proof
  assume a: "strip s = []"
  then have b: "\<forall>c\<in>set (dropWhile is_space s). is_space c"
    by (simp add: strip_def dropWhile_eq_Nil_conv)
  have "dropWhile is_space s = []"
  proof (rule ccontr)
    assume n: "dropWhile is_space s \<noteq> []"
    then have "\<not> is_space (hd (dropWhile is_space s))" by (rule hd_dropWhile)
    moreover from n have "hd (dropWhile is_space s) \<in> set (dropWhile is_space s)" by simp
    ultimately show False using b by blast
  qed
  then show "\<forall>c\<in>set s. is_space c" by (simp add: dropWhile_eq_Nil_conv)
next
  assume "\<forall>c\<in>set s. is_space c"
  then have d: "dropWhile is_space s = []" by (simp add: dropWhile_eq_Nil_conv)
  show "strip s = []" unfolding strip_def d by simp
qed

lemma strip_last: "strip s \<noteq> [] \<Longrightarrow> \<not> is_space (last (strip s))"
proof -
  assume a: "strip s \<noteq> []"
  let ?r = "dropWhile is_space (rev (dropWhile is_space s))"
  from a have n: "?r \<noteq> []" by (simp add: strip_def)
  then have "\<not> is_space (hd ?r)" by (rule hd_dropWhile)
  moreover have "last (strip s) = hd ?r" using n by (simp add: strip_def last_rev)
  ultimately show ?thesis by simp
qed

lemma is_space_newline: "is_space newline"
  by (simp add: is_space_def newline_def)

lemma dot_plus_end_Some:
  "dot_plus_end t = Some g \<Longrightarrow> g \<noteq> [] \<and> (t = g \<or> t = g @ [newline])"
proof -
  assume a: "dot_plus_end t = Some g"
  have id: "takeWhile (\<lambda>c. c \<noteq> newline) t @ dropWhile (\<lambda>c. c \<noteq> newline) t = t"
    by (rule takeWhile_dropWhile_id)
  from a have g: "g = takeWhile (\<lambda>c. c \<noteq> newline) t" and ne: "g \<noteq> []"
    and tl: "dropWhile (\<lambda>c. c \<noteq> newline) t = [] \<or> dropWhile (\<lambda>c. c \<noteq> newline) t = [newline]"
    by (auto simp: dot_plus_end_def Let_def split: if_splits)
  from tl id g have "t = g \<or> t = g @ [newline]" by (metis append_Nil2)
  with ne show ?thesis by simp
qed

lemma ws_group_Some:
  "ws_group t = Some g \<Longrightarrow> g \<noteq> [] \<and> (suffix g t \<or> suffix (g @ [newline]) t)"
proof (induction t)
  case Nil
  then show ?case by simp
next
  case (Cons c cs)
  show ?case
  proof (cases "ws_group cs")
    case None
    with Cons.prems have "dot_plus_end cs = Some g" by (simp split: if_splits)
    from dot_plus_end_Some [OF this] show ?thesis
      by (auto simp: suffix_Cons)
  next
    case (Some g')
    with Cons.prems have "g' = g" by (simp split: if_splits)
    with Some Cons.IH show ?thesis by (auto simp: suffix_Cons)
  qed
qed

lemma category_match_Some:
  assumes "category_match s = Some g"
  shows "g \<noteq> [] \<and> (suffix g s \<or> suffix (g @ [newline]) s)"
proof -
  let ?r3 = "dropWhile is_digit (dropWhile is_space (drop 2 s))"
  from assms obtain r4 where r3: "?r3 = CHR ''.'' # r4" and w: "ws_group r4 = Some g"
    by (auto simp: category_match_def Let_def split: if_splits list.splits)
  have "suffix ?r3 s"
    by (meson suffix_dropWhile suffix_drop suffix_order.trans)
  with r3 have "suffix r4 s" by (metis suffix_ConsD)
  with ws_group_Some [OF w] show ?thesis
    by (meson suffix_order.trans)
qed

lemma header_title_nonempty:
  assumes "category_match (strip h) = Some g"
  shows "strip g \<noteq> []"
proof -
  from category_match_Some [OF assms]
  have ne: "g \<noteq> []" and suf: "suffix g (strip h) \<or> suffix (g @ [newline]) (strip h)"
    by simp_all
  from suf have sne: "strip h \<noteq> []" using ne by (auto simp: suffix_def)
  have "\<not> suffix (g @ [newline]) (strip h)"
  proof
    assume "suffix (g @ [newline]) (strip h)"
    then have "last (strip h) = newline" by (auto simp: suffix_def)
    with strip_last [OF sne] is_space_newline show False by simp
  qed
  with suf have "suffix g (strip h)" by simp
  with ne have "last g = last (strip h)" by (auto simp: suffix_def)
  with strip_last [OF sne] have "\<not> is_space (last g)" by simp
  moreover from ne have "last g \<in> set g" by simp
  ultimately show ?thesis by (auto simp: strip_Nil_iff)
qed


section \<open>Steps of the parser\<close>

lemma title_line_facts:
  assumes "startswith (strip l) ''__''"
  shows "category_match (strip l) = None" and "strip l \<noteq> ''***''"
proof -
  from assms obtain r where r: "strip l = CHR ''_'' # CHR ''_'' # r"
    by (auto simp: startswith_def prefix_def)
  then show "category_match (strip l) = None" by (simp add: category_match_def)
  from r show "strip l \<noteq> ''***''" by simp
qed

lemma parse_line_title:
  assumes "startswith (strip l) ''__''" and "current_category st \<noteq> []"
  shows "parse_line st l =
           \<lparr>current_category = current_category st, current_dataset_lines = [l],
            in_dataset = True,
            datasets = (if current_dataset_lines st \<noteq> []
                        then datasets st
                               @ [dataset_of_section (current_dataset_lines st) (current_category st)]
                        else datasets st)\<rparr>"
  using assms title_line_facts [OF assms(1)]
  by (simp add: parse_line_def parse_dataset_section_def)

lemma parse_line_header:
  assumes "category_match (strip h) = Some g"
  shows "parse_line st h =
           \<lparr>current_category = strip g, current_dataset_lines = [], in_dataset = False,
            datasets = flush st\<rparr>"
  using assms by (simp add: parse_line_def)

lemma parse_line_plain:
  assumes "plain_line b" and "in_dataset st"
  shows "parse_line st b =
           st\<lparr>current_dataset_lines := current_dataset_lines st @ filter (\<lambda>l. strip l \<noteq> []) [b]\<rparr>"
  using assms by (simp add: parse_line_def plain_line_def)

lemma foldl_parse_line_plain:
  assumes "\<forall>b\<in>set bs. plain_line b" and "in_dataset st"
  shows "foldl parse_line st bs =
           st\<lparr>current_dataset_lines := current_dataset_lines st @ filter (\<lambda>l. strip l \<noteq> []) bs\<rparr>"
  using assms
proof (induction bs arbitrary: st)
  case Nil
  show ?case by simp
next
  case (Cons b bs)
  from Cons.prems have b: "plain_line b" and bs: "\<forall>b\<in>set bs. plain_line b" by simp_all
  let ?st = "st\<lparr>current_dataset_lines := current_dataset_lines st @ filter (\<lambda>l. strip l \<noteq> []) [b]\<rparr>"
  have "in_dataset ?st" using Cons.prems(2) by simp
  from Cons.IH [OF bs this] show ?case
    by (simp add: parse_line_plain [OF b Cons.prems(2)])
qed


section \<open>The loop of \<open>_parse_dataset_section\<close>\<close>

lemma prefix_other_head: "prefix (a # p) s \<Longrightarrow> a \<noteq> b \<Longrightarrow> \<not> prefix (b # q) s"
  by (cases s) auto

lemma assign_line_registration:
  "v_requires_registration (assign_line v line) = v_requires_registration v"
  by (simp add: assign_line_def Let_def)

lemma section_line_registration:
  "v_requires_registration (section_line v raw)
     = (v_requires_registration v \<or> py_in ''requires registration'' (lower (strip raw)))"
  by (simp add: section_line_def Let_def assign_line_registration lower_def)

lemma foldl_section_line_registration:
  "v_requires_registration (foldl section_line v ls)
     = (v_requires_registration v \<or> (\<exists>l\<in>set ls. py_in ''requires registration'' (lower (strip l))))"
  by (induction ls arbitrary: v) (auto simp: section_line_registration)

lemma assign_line_information:
  "v_information_url (assign_line v line)
     = (if startswith (lower line) ''information:'' then extract_url line
        else v_information_url v)"
  by (auto simp: assign_line_def Let_def startswith_def dest: prefix_other_head)

lemma assign_line_overview:
  "v_overview_url (assign_line v line)
     = (if startswith (lower line) ''overview:'' then extract_url line
        else v_overview_url v)"
  by (auto simp: assign_line_def Let_def startswith_def dest: prefix_other_head)

lemma section_line_information:
  "v_information_url (section_line v raw)
     = (if startswith (lower (strip raw)) ''information:'' then extract_url (strip raw)
        else v_information_url v)"
  by (simp add: section_line_def Let_def assign_line_information)
    (simp add: startswith_def lower_def)

lemma section_line_overview:
  "v_overview_url (section_line v raw)
     = (if startswith (lower (strip raw)) ''overview:'' then extract_url (strip raw)
        else v_overview_url v)"
  by (simp add: section_line_def Let_def assign_line_overview)
    (simp add: startswith_def lower_def)

lemma foldl_section_line_information:
  "v_information_url (foldl section_line v ls)
     = (let xs = filter (\<lambda>s. startswith (lower s) ''information:'') (map strip ls)
        in if xs = [] then v_information_url v else extract_url (last xs))"
  by (induction ls rule: rev_induct) (simp_all add: section_line_information Let_def)

lemma foldl_section_line_overview:
  "v_overview_url (foldl section_line v ls)
     = (let xs = filter (\<lambda>s. startswith (lower s) ''overview:'') (map strip ls)
        in if xs = [] then v_overview_url v else extract_url (last xs))"
  by (induction ls rule: rev_induct) (simp_all add: section_line_overview Let_def)


section \<open>The registration flag\<close>

text \<open>
  What the parser computes: the flag is set exactly when a line after the title line
  contains, in lower case, the one phrase "requires registration"; the line then goes
  through the prefix chain like any other.
\<close>

lemma registration_flag_iff:
  "requires_registration (dataset_of_section lines cat)
     = (\<exists>l\<in>set (tl lines). py_in ''requires registration'' (lower (strip l)))"
  by (simp add: dataset_of_section_def Let_def foldl_section_line_registration section_init_def)

lemma section_line_not_consumed:
  "strip raw \<noteq> [] \<Longrightarrow>
   section_line v raw
     = (assign_line v (strip raw))\<lparr>v_requires_registration :=
          v_requires_registration v \<or> py_in ''requires registration'' (lower (strip raw))\<rparr>"
  by (simp add: section_line_def Let_def assign_line_def)

text \<open>
  Claim C2, evaluated on a record whose description line is "Registration required.":
  the parser leaves \<open>requires_registration\<close> false, although the line contains one of
  the four phrases, which \<open>check_registration_required\<close> of \<open>utils.py\<close> recognises.
\<close>

theorem registration_phrase_missed:
  "parse_readme (Some registration_document) [] =
     Inr [\<lparr>name = ''Alpha Set'', category = ''Imaging'',
           description = ''Registration required.'', paper_url = None, access_url = None,
           data_url = None, information_url = None, overview_url = None,
           requires_registration = False,
           raw_text = join [newline] [''__Alpha Set__'', ''Registration required.'']\<rparr>]
   \<and> check_registration_required ''Registration required.''"
  by code_simp


section \<open>Information and overview lines\<close>

text \<open>
  Claim C3, as amended. An overview line assigns its first URL to \<open>overview_url\<close> and
  never to \<open>information_url\<close>: the information URL of the record made from a buffer is
  the URL of the last information line after the title line, or \<open>None\<close> without such a
  line, wherever overview lines stand; the overview URL is the URL of the last overview
  line.
\<close>

theorem overview_line_sets_overview_url:
  assumes "lines \<noteq> []"
  shows "\<exists>d. parse_dataset_section lines cat ds = ds @ [d]
           \<and> information_url d
               = (let xs = filter (\<lambda>s. startswith (lower s) ''information:'')
                             (map strip (tl lines))
                  in if xs = [] then None else extract_url (last xs))
           \<and> overview_url d
               = (let xs = filter (\<lambda>s. startswith (lower s) ''overview:'')
                             (map strip (tl lines))
                  in if xs = [] then None else extract_url (last xs))"
proof -
  let ?d = "dataset_of_section lines cat"
  have "parse_dataset_section lines cat ds = ds @ [?d]"
    using assms by (simp add: parse_dataset_section_def)
  moreover have "information_url ?d
               = (let xs = filter (\<lambda>s. startswith (lower s) ''information:'')
                             (map strip (tl lines))
                  in if xs = [] then None else extract_url (last xs))"
    by (simp add: dataset_of_section_def foldl_section_line_information section_init_def
          Let_def)
  moreover have "overview_url ?d
               = (let xs = filter (\<lambda>s. startswith (lower s) ''overview:'')
                             (map strip (tl lines))
                  in if xs = [] then None else extract_url (last xs))"
    by (simp add: dataset_of_section_def foldl_section_line_overview section_init_def
          Let_def)
  ultimately show ?thesis by blast
qed

theorem overview_line_sets_overview_url_witness:
  "\<exists>d. parse_dataset_section information_overview_lines ''Imaging'' [] = [d]
       \<and> information_url d = Some ''https://x.org/i''
       \<and> overview_url d = Some ''https://x.org/o''"
proof -
  have n: "information_overview_lines \<noteq> []" by (simp add: information_overview_lines_def)
  have i: "filter (\<lambda>s. startswith (lower s) ''information:'')
             (map strip (tl information_overview_lines)) = [''Information: https://x.org/i'']"
    by code_simp
  have o: "filter (\<lambda>s. startswith (lower s) ''overview:'')
             (map strip (tl information_overview_lines)) = [''Overview: https://x.org/o'']"
    by code_simp
  have ui: "extract_url ''Information: https://x.org/i'' = Some ''https://x.org/i''"
    by code_simp
  have uo: "extract_url ''Overview: https://x.org/o'' = Some ''https://x.org/o''"
    by code_simp
  from overview_line_sets_overview_url [OF n, of "''Imaging''" "[]"]
  show ?thesis unfolding i o by (simp add: ui uo del: extract_url.simps)
qed

text \<open>
  A buffer whose only metadata line is an overview line: the information URL stays unset
  and the overview URL is set. The older \<open>_extract_dataset_info\<close> puts the same URL into
  the information URL.
\<close>

theorem overview_only_leaves_information_unset:
  "parse_dataset_section overview_lines ''Imaging'' [] =
     [\<lparr>name = ''Alpha Set'', category = ''Imaging'', description = [], paper_url = None,
       access_url = None, data_url = None, information_url = None,
       overview_url = Some ''https://x.org/o'', requires_registration = False,
       raw_text = join [newline] overview_lines\<rparr>]
   \<and> map_option l_information_url
         (extract_dataset_info (join [newline] overview_lines) ''Imaging'')
       = Some (Some ''https://x.org/o'')"
  by code_simp

section \<open>Short titles\<close>

text \<open>
  Claim C4, evaluated on a document whose only record has the two-character title
  \<open>ab\<close>: \<open>parse_readme\<close> keeps the record, where the claim has it discarded. The older
  \<open>_extract_dataset_info\<close> discards the same section and keeps a title of three characters.
\<close>

theorem short_title_kept:
  "parse_readme (Some short_title_document) [] =
     Inr [\<lparr>name = ''ab'', category = ''Imaging'', description = [], paper_url = None,
           access_url = None, data_url = None, information_url = None, overview_url = None,
           requires_registration = False, raw_text = ''__ab__''\<rparr>]
   \<and> extract_dataset_info ''__ab__'' ''Imaging'' = None
   \<and> map_option l_name (extract_dataset_info ''__abc__'' ''Imaging'') = Some ''abc''"
  by code_simp

section \<open>A title closes the pending record\<close>

text \<open>
  Claim C5. When a record title line, its trimmed content wrapped in the bold delimiter,
  is met while a category is active and a record is being accumulated, the parser first
  appends the pending record to the output and then starts the new buffer with the title
  line. Hence a header followed by two title lines, each with plain lines after it and no
  separator between them, gives two records, the second title not being absorbed by the
  first record.
\<close>

theorem title_closes_pending_record:
  assumes t2: "strip t2 = ''__'' @ x2 @ ''__''"
    and t1: "strip t1 = ''__'' @ x1 @ ''__''"
    and h: "category_match (strip h) = Some g"
    and b: "\<forall>b\<in>set b1 \<union> set b2. plain_line b"
  shows "(\<forall>st. current_category st \<noteq> [] \<and> current_dataset_lines st \<noteq> [] \<longrightarrow>
            parse_line st t2 =
              \<lparr>current_category = current_category st, current_dataset_lines = [t2],
               in_dataset = True,
               datasets = datasets st
                 @ [dataset_of_section (current_dataset_lines st) (current_category st)]\<rparr>)
         \<and> parse_lines ([h, t1] @ b1 @ [t2] @ b2) ds =
             ds @ [dataset_of_section (t1 # filter (\<lambda>l. strip l \<noteq> []) b1) (strip g),
                   dataset_of_section (t2 # filter (\<lambda>l. strip l \<noteq> []) b2) (strip g)]"
proof
  have s2: "startswith (strip t2) ''__''" using t2 by (simp add: startswith_def)
  have s1: "startswith (strip t1) ''__''" using t1 by (simp add: startswith_def)
  show "\<forall>st. current_category st \<noteq> [] \<and> current_dataset_lines st \<noteq> [] \<longrightarrow>
            parse_line st t2 =
              \<lparr>current_category = current_category st, current_dataset_lines = [t2],
               in_dataset = True,
               datasets = datasets st
                 @ [dataset_of_section (current_dataset_lines st) (current_category st)]\<rparr>"
    using parse_line_title [OF s2] by simp
  let ?c = "strip g"
  let ?nb = "filter (\<lambda>l. strip l \<noteq> [])"
  let ?init = "\<lparr>current_category = [], current_dataset_lines = [], in_dataset = False,
                datasets = ds\<rparr>"
  have c: "?c \<noteq> []" using h by (rule header_title_nonempty)
  have p1: "\<forall>b\<in>set b1. plain_line b" and p2: "\<forall>b\<in>set b2. plain_line b"
    using b by simp_all
  have a1: "parse_line ?init h =
       \<lparr>current_category = ?c, current_dataset_lines = [], in_dataset = False, datasets = ds\<rparr>"
    by (simp add: parse_line_header [OF h] flush_def)
  have a2: "foldl parse_line ?init [h, t1] =
       \<lparr>current_category = ?c, current_dataset_lines = [t1], in_dataset = True, datasets = ds\<rparr>"
    using c by (simp add: a1 parse_line_title [OF s1])
  have a3: "foldl parse_line ?init ([h, t1] @ b1) =
       \<lparr>current_category = ?c, current_dataset_lines = t1 # ?nb b1, in_dataset = True,
        datasets = ds\<rparr>"
    by (subst foldl_append, subst a2) (simp add: foldl_parse_line_plain [OF p1])
  have a4: "foldl parse_line ?init (([h, t1] @ b1) @ [t2]) =
       \<lparr>current_category = ?c, current_dataset_lines = [t2], in_dataset = True,
        datasets = ds @ [dataset_of_section (t1 # ?nb b1) ?c]\<rparr>"
    by (subst foldl_append, subst a3) (use c in \<open>simp add: parse_line_title [OF s2]\<close>)
  have a5: "foldl parse_line ?init ((([h, t1] @ b1) @ [t2]) @ b2) =
       \<lparr>current_category = ?c, current_dataset_lines = t2 # ?nb b2, in_dataset = True,
        datasets = ds @ [dataset_of_section (t1 # ?nb b1) ?c]\<rparr>"
    by (subst foldl_append, subst a4) (simp add: foldl_parse_line_plain [OF p2])
  have "parse_lines ((([h, t1] @ b1) @ [t2]) @ b2) ds =
          ds @ [dataset_of_section (t1 # ?nb b1) ?c, dataset_of_section (t2 # ?nb b2) ?c]"
    unfolding parse_lines_def by (subst a5) (use c in \<open>simp add: flush_def parse_dataset_section_def\<close>)
  then show "parse_lines ([h, t1] @ b1 @ [t2] @ b2) ds =
          ds @ [dataset_of_section (t1 # ?nb b1) ?c, dataset_of_section (t2 # ?nb b2) ?c]"
    by simp
qed

theorem title_closes_pending_record_witness:
  "parse_line pending_state ''__Beta Set__'' =
     \<lparr>current_category = ''Imaging'', current_dataset_lines = [''__Beta Set__''],
      in_dataset = True,
      datasets = [dataset_of_section [''__Alpha Set__''] ''Imaging'']\<rparr>
   \<and> parse_lines [''## 1. Imaging'', ''__Alpha Set__'', ''A chest scan corpus.'', '''',
                   ''__Beta Set__'', ''Access: https://y.org/b''] [] =
       [dataset_of_section [''__Alpha Set__'', ''A chest scan corpus.''] ''Imaging'',
        dataset_of_section [''__Beta Set__'', ''Access: https://y.org/b''] ''Imaging'']"
proof -
  have t2: "strip ''__Beta Set__'' = ''__'' @ ''Beta Set'' @ ''__''" by code_simp
  have t1: "strip ''__Alpha Set__'' = ''__'' @ ''Alpha Set'' @ ''__''" by code_simp
  have h: "category_match (strip ''## 1. Imaging'') = Some ''Imaging''" by code_simp
  have b: "\<forall>b\<in>set [''A chest scan corpus.'', ''''] \<union> set [''Access: https://y.org/b''].
             plain_line b"
    by code_simp
  have g: "strip ''Imaging'' = ''Imaging''" by code_simp
  have f1: "filter (\<lambda>l. strip l \<noteq> []) [''A chest scan corpus.'', ''''] = [''A chest scan corpus.'']"
    by code_simp
  have f2: "filter (\<lambda>l. strip l \<noteq> []) [''Access: https://y.org/b''] = [''Access: https://y.org/b'']"
    by code_simp
  have p: "current_category pending_state \<noteq> [] \<and> current_dataset_lines pending_state \<noteq> []"
    by (simp add: pending_state_def)
  from title_closes_pending_record [OF t2 t1 h b, of "[]"] p show ?thesis
    unfolding g f1 f2 by (simp add: pending_state_def)
qed


section \<open>Categories and their counts\<close>

lemma bump_keys:
  "map fst (bump c m) = (if c \<in> set (map fst m) then map fst m else map fst m @ [c])"
  by (induction m) fastforce+

lemma bump_map_of:
  "map_of (bump c m) k
     = (if k = c then Some (case map_of m c of None \<Rightarrow> 1 | Some n \<Rightarrow> n + 1) else map_of m k)"
  by (induction m) auto

lemma category_counts_snoc:
  "category_counts (ds @ [d]) = bump (category d) (category_counts ds)"
  by (simp add: category_counts_def)

lemma category_counts_keys: "set (map fst (category_counts ds)) = category ` set ds"
proof (induction ds rule: rev_induct)
  case Nil
  show ?case by (simp add: category_counts_def)
next
  case (snoc d ds)
  then show ?case unfolding category_counts_snoc bump_keys by auto
qed

lemma category_counts_distinct: "distinct (map fst (category_counts ds))"
proof (induction ds rule: rev_induct)
  case Nil
  show ?case by (simp add: category_counts_def)
next
  case (snoc d ds)
  then show ?case unfolding category_counts_snoc bump_keys by auto
qed

lemma category_counts_map_of:
  "map_of (category_counts ds) c
     = (if c \<in> category ` set ds then Some (length (filter (\<lambda>d. category d = c) ds)) else None)"
proof (induction ds arbitrary: c rule: rev_induct)
  case Nil
  show ?case by (simp add: category_counts_def)
next
  case (snoc d ds)
  show ?case
  proof (cases "c = category d")
    case True
    show ?thesis
    proof (cases "category d \<in> category ` set ds")
      case True
      with \<open>c = category d\<close> show ?thesis
        unfolding category_counts_snoc bump_map_of by (simp add: snoc.IH)
    next
      case False
      then have "\<forall>x\<in>set ds. category x \<noteq> category d"
        by (metis image_eqI)
      then have "filter (\<lambda>x. category x = category d) ds = []"
        by (simp add: filter_empty_conv)
      with False \<open>c = category d\<close> show ?thesis
        unfolding category_counts_snoc bump_map_of by (simp add: snoc.IH)
    qed
  next
    case False
    then show ?thesis
      unfolding category_counts_snoc bump_map_of by (auto simp: snoc.IH)
  qed
qed

lemma category_counts_count:
  assumes "(c, n) \<in> set (category_counts ds)"
  shows "n = length (filter (\<lambda>d. category d = c) ds)"
proof -
  from assms category_counts_distinct have "map_of (category_counts ds) c = Some n"
    by simp
  then show ?thesis by (simp add: category_counts_map_of split: if_splits)
qed

lemma first_seen_snoc_old:
  "c \<in> category ` set ds \<Longrightarrow>
   length (takeWhile (\<lambda>x. category x \<noteq> c) (ds @ [d]))
     = length (takeWhile (\<lambda>x. category x \<noteq> c) ds)"
proof -
  assume "c \<in> category ` set ds"
  then obtain x where "x \<in> set ds" "\<not> category x \<noteq> c" by auto
  then show ?thesis
    using takeWhile_append1 [of x ds "\<lambda>x. category x \<noteq> c" "[d]"] by simp
qed

lemma first_seen_less:
  "c \<in> category ` set ds \<Longrightarrow> length (takeWhile (\<lambda>x. category x \<noteq> c) ds) < length ds"
proof -
  assume "c \<in> category ` set ds"
  then have "takeWhile (\<lambda>x. category x \<noteq> c) ds \<noteq> ds" by auto
  moreover have "length (takeWhile (\<lambda>x. category x \<noteq> c) ds) \<le> length ds"
    by (rule length_takeWhile_le)
  ultimately show ?thesis
    by (metis le_neq_implies_less takeWhile_eq_take take_all_iff order_refl)
qed

lemma first_seen_snoc_new:
  "c \<notin> category ` set ds \<Longrightarrow> category d = c \<Longrightarrow>
   length (takeWhile (\<lambda>x. category x \<noteq> c) (ds @ [d])) = length ds"
  by (subst takeWhile_append2) (auto simp: image_iff)

lemma category_counts_first_seen:
  "sorted_wrt (\<lambda>a b. length (takeWhile (\<lambda>x. category x \<noteq> a) ds)
                       < length (takeWhile (\<lambda>x. category x \<noteq> b) ds))
     (map fst (category_counts ds))"
proof (induction ds rule: rev_induct)
  case Nil
  show ?case by (simp add: category_counts_def)
next
  case (snoc d ds)
  let ?f = "\<lambda>xs a. length (takeWhile (\<lambda>x. category x \<noteq> a) xs)"
  let ?ks = "map fst (category_counts ds)"
  have ks: "set ?ks = category ` set ds" by (rule category_counts_keys)
  have old: "sorted_wrt (\<lambda>a b. ?f (ds @ [d]) a < ?f (ds @ [d]) b) ?ks"
  proof (rule sorted_wrt_mono_rel [OF _ snoc.IH])
    fix a b assume "a \<in> set ?ks" "b \<in> set ?ks" "?f ds a < ?f ds b"
    then show "?f (ds @ [d]) a < ?f (ds @ [d]) b"
      using first_seen_snoc_old ks by metis
  qed
  show ?case
  proof (cases "category d \<in> set ?ks")
    case True
    with old show ?thesis unfolding category_counts_snoc bump_keys by simp
  next
    case False
    have "\<forall>a\<in>set ?ks. ?f (ds @ [d]) a < ?f (ds @ [d]) (category d)"
    proof
      fix a assume a: "a \<in> set ?ks"
      then have "?f (ds @ [d]) a = ?f ds a" using first_seen_snoc_old ks by metis
      moreover have "?f ds a < length ds" using a first_seen_less ks by metis
      moreover have "?f (ds @ [d]) (category d) = length ds"
        using False ks first_seen_snoc_new by metis
      ultimately show "?f (ds @ [d]) a < ?f (ds @ [d]) (category d)" by simp
    qed
    with old False show ?thesis
      unfolding category_counts_snoc bump_keys by (simp add: sorted_wrt_append)
  qed
qed

lemma sorted_wrt_ties:
  fixes f :: "'a \<Rightarrow> nat"
  assumes "sorted_wrt (\<lambda>p q. f q \<le> f p) xs"
    and "\<And>k. sorted_wrt P (filter (\<lambda>p. f p = k) xs)"
  shows "sorted_wrt (\<lambda>p q. f q < f p \<or> (f p = f q \<and> P p q)) xs"
  using assms
proof (induction xs)
  case Nil
  show ?case by simp
next
  case (Cons x xs)
  have tl: "\<And>k. sorted_wrt P (filter (\<lambda>p. f p = k) xs)"
  proof -
    fix k
    from Cons.prems(2) [of k] show "sorted_wrt P (filter (\<lambda>p. f p = k) xs)"
      by (cases "f x = k") simp_all
  qed
  have hd: "\<forall>y\<in>set xs. f y < f x \<or> (f x = f y \<and> P x y)"
  proof
    fix y assume y: "y \<in> set xs"
    with Cons.prems(1) have le: "f y \<le> f x" by simp
    show "f y < f x \<or> (f x = f y \<and> P x y)"
    proof (cases "f y = f x")
      case True
      from Cons.prems(2) [of "f x"] have "\<forall>z\<in>set (filter (\<lambda>p. f p = f x) xs). P x z"
        by simp
      with y True show ?thesis by simp
    next
      case False
      with le show ?thesis by simp
    qed
  qed
  from Cons.prems(1) have "sorted_wrt (\<lambda>p q. f q \<le> f p) xs" by simp
  from Cons.IH [OF this tl] hd show ?case by simp
qed

lemma sorted_desc_stable:
  fixes f :: "'a \<Rightarrow> nat"
  assumes "sorted_wrt P xs"
  shows "sorted_wrt (\<lambda>p q. f q < f p \<or> (f p = f q \<and> P p q)) (rev (sort_key f (rev xs)))"
proof (rule sorted_wrt_ties)
  have "sorted (map f (sort_key f (rev xs)))" by (rule sorted_sort_key)
  then have "sorted_wrt (\<lambda>p q. f p \<le> f q) (sort_key f (rev xs))"
    by (simp add: sorted_wrt_map)
  then show "sorted_wrt (\<lambda>p q. f q \<le> f p) (rev (sort_key f (rev xs)))"
    by (simp add: sorted_wrt_rev)
next
  fix k
  have "filter (\<lambda>p. f p = k) (rev (sort_key f (rev xs))) = filter (\<lambda>p. f p = k) xs"
    by (simp add: rev_filter [symmetric] sort_key_stable)
  with assms show "sorted_wrt P (filter (\<lambda>p. f p = k) (rev (sort_key f (rev xs))))"
    by (simp add: sorted_wrt_filter)
qed

text \<open>
  Claim C6. \<open>list_categories\<close> returns one pair per distinct category of the records,
  its count being the number of records of that category; the pairs are in descending
  order of count, and pairs of equal count are in the order in which their categories
  first appear in the record list.
\<close>

theorem list_categories_sorted:
  "distinct (map fst (list_categories ds))
   \<and> set (map fst (list_categories ds)) = category ` set ds
   \<and> (\<forall>(c, n)\<in>set (list_categories ds). n = length (filter (\<lambda>d. category d = c) ds))
   \<and> sorted_wrt
        (\<lambda>p q. snd q < snd p
               \<or> (snd p = snd q
                  \<and> length (takeWhile (\<lambda>d. category d \<noteq> fst p) ds)
                      < length (takeWhile (\<lambda>d. category d \<noteq> fst q) ds)))
        (list_categories ds)"
proof -
  have d: "distinct (map fst (list_categories ds))"
    using category_counts_distinct [of ds]
    by (simp add: list_categories_def distinct_map)
  have s: "set (map fst (list_categories ds)) = category ` set ds"
    using category_counts_keys [of ds] by (simp add: list_categories_def)
  have c: "\<forall>(c, n)\<in>set (list_categories ds). n = length (filter (\<lambda>d. category d = c) ds)"
    using category_counts_count by (auto simp: list_categories_def)
  have "sorted_wrt (\<lambda>p q. length (takeWhile (\<lambda>d. category d \<noteq> fst p) ds)
                           < length (takeWhile (\<lambda>d. category d \<noteq> fst q) ds))
          (category_counts ds)"
    using category_counts_first_seen [of ds] by (simp add: sorted_wrt_map)
  from sorted_desc_stable [OF this, of snd]
  have o: "sorted_wrt
        (\<lambda>p q. snd q < snd p
               \<or> (snd p = snd q
                  \<and> length (takeWhile (\<lambda>d. category d \<noteq> fst p) ds)
                      < length (takeWhile (\<lambda>d. category d \<noteq> fst q) ds)))
        (list_categories ds)"
    by (simp add: list_categories_def)
  from d s c o show ?thesis by blast
qed

theorem list_categories_sorted_witness:
  "list_categories mixed_datasets = [(''Imaging'', 2), (''Text'', 1), (''Speech'', 1)]
   \<and> distinct (map fst (list_categories mixed_datasets))
   \<and> set (map fst (list_categories mixed_datasets)) = category ` set mixed_datasets"
proof -
  have e: "list_categories mixed_datasets = [(''Imaging'', 2), (''Text'', 1), (''Speech'', 1)]"
    by code_simp
  from list_categories_sorted [of mixed_datasets] e show ?thesis by blast
qed


section \<open>Repeated parsing\<close>

text \<open>The datasets a browser already holds are kept in front of every result.\<close>

lemma flush_prefix: "flush (st\<lparr>datasets := ds @ datasets st\<rparr>) = ds @ flush st"
  by (simp add: flush_def parse_dataset_section_def)

lemma parse_line_prefix:
  "parse_line (st\<lparr>datasets := ds @ datasets st\<rparr>) l
     = (parse_line st l)\<lparr>datasets := ds @ datasets (parse_line st l)\<rparr>"
  by (simp add: parse_line_def flush_prefix parse_dataset_section_def split: option.splits)

lemma foldl_parse_line_prefix:
  "foldl parse_line (st\<lparr>datasets := ds @ datasets st\<rparr>) ls
     = (foldl parse_line st ls)\<lparr>datasets := ds @ datasets (foldl parse_line st ls)\<rparr>"
  by (induction ls arbitrary: st) (simp_all add: parse_line_prefix)

lemma parse_lines_prefix: "parse_lines ls ds = ds @ parse_lines ls []"
proof -
  let ?st = "\<lparr>current_category = [], current_dataset_lines = [], in_dataset = False,
               datasets = []\<rparr>"
  have "parse_lines ls ds = flush (foldl parse_line (?st\<lparr>datasets := ds @ datasets ?st\<rparr>) ls)"
    by (simp add: parse_lines_def)
  also have "\<dots> = ds @ flush (foldl parse_line ?st ls)"
    by (simp only: foldl_parse_line_prefix flush_prefix)
  finally show ?thesis by (simp add: parse_lines_def)
qed

text \<open>
  Claim C7, as amended. Parsing is a function of the text and of the datasets the browser
  already holds: \<open>parse_readme\<close> appends the records of the text to them. Two fresh
  browsers given the same text hold equal lists, and a further call on the same browser
  leaves its earlier datasets followed by the records of the text once more.
\<close>

theorem parse_readme_appends:
  "parse_readme (Some content) [] = Inr r \<Longrightarrow> parse_readme (Some content) ds = Inr (ds @ r)"
  using parse_lines_prefix [of "split_lines content" ds] by (auto simp: parse_readme_def)

theorem parse_readme_appends_witness:
  "parse_readme (Some example_document) [] = Inr [alpha_set, beta_set]
   \<and> parse_readme (Some example_document) [alpha_set, beta_set]
       = Inr [alpha_set, beta_set, alpha_set, beta_set]"
proof -
  have p: "parse_readme (Some example_document) [] = Inr [alpha_set, beta_set]"
    by code_simp
  from parse_readme_appends [OF p, of "[alpha_set, beta_set]"] p show ?thesis by simp
qed

text \<open>
  On the example document the second call leaves four records, not the two of one parse.
\<close>

theorem second_parse_doubles:
  "parse_readme (Some example_document) [] = Inr [alpha_set, beta_set]
   \<and> parse_readme (Some example_document) [alpha_set, beta_set] \<noteq> Inr [alpha_set, beta_set]"
  by code_simp


section \<open>Every record lies under its header\<close>

lemma scan_lazy_group: "scan_lazy d t = Some (g, r) \<Longrightarrow> g \<noteq> []"
  by (cases t) (auto split: if_splits option.splits)

lemma sub_delim_nonempty: "s \<noteq> [] \<Longrightarrow> sub_delim d s \<noteq> []"
  by (cases s) (auto split: option.splits dest: scan_lazy_group)

lemma record_placed_snoc: "record_placed ls d \<Longrightarrow> record_placed (ls @ [l]) d"
proof -
  assume a: "record_placed ls d"
  then obtain i j rest where ij: "i < j" "j < length ls"
    and h: "header_title (ls ! i) = Some (category d)"
    and b: "\<forall>k. i < k \<and> k < j \<longrightarrow> header_title (ls ! k) = None"
    and t: "startswith (strip (ls ! j)) ''__''"
    and n: "name d = sub_delim ''__'' (strip (ls ! j))"
    and r: "raw_text d = join [newline] (ls ! j # rest)"
    unfolding record_placed_def by blast
  let ?ls = "ls @ [l]"
  from ij have e: "?ls ! i = ls ! i" "?ls ! j = ls ! j" by (simp_all add: nth_append)
  from ij have b': "\<forall>k. i < k \<and> k < j \<longrightarrow> header_title (?ls ! k) = None"
    using b by (simp add: nth_append)
  have "i < j \<and> j < length ?ls
        \<and> header_title (?ls ! i) = Some (category d)
        \<and> (\<forall>k. i < k \<and> k < j \<longrightarrow> header_title (?ls ! k) = None)
        \<and> startswith (strip (?ls ! j)) ''__''
        \<and> name d = sub_delim ''__'' (strip (?ls ! j))
        \<and> (\<exists>rest. raw_text d = join [newline] (?ls ! j # rest))"
    using ij h b' t n r unfolding e by auto
  moreover from a have "name d \<noteq> []" "category d \<noteq> []" by (simp_all add: record_placed_def)
  ultimately show ?thesis unfolding record_placed_def by blast
qed

lemma emitted_record_placed:
  assumes inv: "parser_inv ls st"
    and buf: "current_dataset_lines st \<noteq> []"
    and cat: "current_category st \<noteq> []"
  shows "record_placed ls (dataset_of_section (current_dataset_lines st) (current_category st))"
proof -
  let ?d = "dataset_of_section (current_dataset_lines st) (current_category st)"
  from inv cat obtain i where i: "i < length ls"
    and hi: "header_title (ls ! i) = Some (current_category st)"
    and bi: "\<forall>k. i < k \<and> k < length ls \<longrightarrow> header_title (ls ! k) = None"
    unfolding parser_inv_def by blast
  from inv buf obtain j where j: "j < length ls"
    and lj: "ls ! j = hd (current_dataset_lines st)"
    and tj: "startswith (strip (ls ! j)) ''__''"
    and bj: "\<forall>k. j \<le> k \<and> k < length ls \<longrightarrow> header_title (ls ! k) = None"
    unfolding parser_inv_def by blast
  have ij: "i < j"
  proof (rule ccontr)
    assume "\<not> i < j"
    then have "j \<le> i" by simp
    with bj i have "header_title (ls ! i) = None" by simp
    with hi show False by simp
  qed
  have nm: "name ?d = sub_delim ''__'' (strip (ls ! j))"
    by (simp add: dataset_of_section_def Let_def lj)
  from tj have "strip (ls ! j) \<noteq> []" by (auto simp: startswith_def)
  then have n0: "name ?d \<noteq> []" unfolding nm by (rule sub_delim_nonempty)
  have c0: "category ?d = current_category st" by (simp add: dataset_of_section_def Let_def)
  from buf have "current_dataset_lines st = ls ! j # tl (current_dataset_lines st)"
    by (simp add: lj)
  then have rt: "raw_text ?d = join [newline] (ls ! j # tl (current_dataset_lines st))"
    by (simp add: dataset_of_section_def Let_def)
  have "i < j \<and> j < length ls
        \<and> header_title (ls ! i) = Some (category ?d)
        \<and> (\<forall>k. i < k \<and> k < j \<longrightarrow> header_title (ls ! k) = None)
        \<and> startswith (strip (ls ! j)) ''__''
        \<and> name ?d = sub_delim ''__'' (strip (ls ! j))
        \<and> (\<exists>rest. raw_text ?d = join [newline] (ls ! j # rest))"
    using ij j hi bi tj nm rt unfolding c0 by auto
  with n0 cat c0 show ?thesis unfolding record_placed_def by metis
qed

lemma flush_placed:
  assumes "parser_inv ls st"
  shows "\<forall>d\<in>set (flush st). record_placed ls d"
proof (cases "current_dataset_lines st \<noteq> [] \<and> current_category st \<noteq> []")
  case True
  with emitted_record_placed [OF assms] assms show ?thesis
    by (auto simp: flush_def parse_dataset_section_def parser_inv_def)
next
  case False
  with assms show ?thesis by (auto simp: flush_def parser_inv_def)
qed

lemma header_title_None: "category_match (strip l) = None \<Longrightarrow> header_title l = None"
  by (simp add: header_title_def)

lemma category_kept:
  assumes "header_title l = None"
    and "\<exists>i<length ls. header_title (ls ! i) = Some c
           \<and> (\<forall>k. i < k \<and> k < length ls \<longrightarrow> header_title (ls ! k) = None)"
  shows "\<exists>i<length (ls @ [l]). header_title ((ls @ [l]) ! i) = Some c
           \<and> (\<forall>k. i < k \<and> k < length (ls @ [l]) \<longrightarrow> header_title ((ls @ [l]) ! k) = None)"
proof -
  from assms(2) obtain i where i: "i < length ls" and h: "header_title (ls ! i) = Some c"
    and b: "\<forall>k. i < k \<and> k < length ls \<longrightarrow> header_title (ls ! k) = None"
    by blast
  have "\<forall>k. i < k \<and> k < length (ls @ [l]) \<longrightarrow> header_title ((ls @ [l]) ! k) = None"
    using b assms(1) by (auto simp: nth_append less_Suc_eq)
  moreover have "header_title ((ls @ [l]) ! i) = Some c" using i h by (simp add: nth_append)
  moreover have "i < length (ls @ [l])" using i by simp
  ultimately show ?thesis by blast
qed

lemma buffer_kept:
  assumes "header_title l = None"
    and "\<exists>j<length ls. ls ! j = t \<and> startswith (strip (ls ! j)) ''__''
           \<and> (\<forall>k. j \<le> k \<and> k < length ls \<longrightarrow> header_title (ls ! k) = None)"
  shows "\<exists>j<length (ls @ [l]). (ls @ [l]) ! j = t \<and> startswith (strip ((ls @ [l]) ! j)) ''__''
           \<and> (\<forall>k. j \<le> k \<and> k < length (ls @ [l]) \<longrightarrow> header_title ((ls @ [l]) ! k) = None)"
proof -
  from assms(2) obtain j where j: "j < length ls" and e: "ls ! j = t"
    and s: "startswith (strip (ls ! j)) ''__''"
    and b: "\<forall>k. j \<le> k \<and> k < length ls \<longrightarrow> header_title (ls ! k) = None"
    by blast
  have "\<forall>k. j \<le> k \<and> k < length (ls @ [l]) \<longrightarrow> header_title ((ls @ [l]) ! k) = None"
    using b assms(1) by (auto simp: nth_append less_Suc_eq)
  moreover have "(ls @ [l]) ! j = t" "startswith (strip ((ls @ [l]) ! j)) ''__''"
    using j e s by (simp_all add: nth_append)
  moreover have "j < length (ls @ [l])" using j by simp
  ultimately show ?thesis by blast
qed

lemma buffer_started:
  assumes "header_title l = None" and "startswith (strip l) ''__''"
  shows "\<exists>j<length (ls @ [l]). (ls @ [l]) ! j = l \<and> startswith (strip ((ls @ [l]) ! j)) ''__''
           \<and> (\<forall>k. j \<le> k \<and> k < length (ls @ [l]) \<longrightarrow> header_title ((ls @ [l]) ! k) = None)"
proof -
  have "\<forall>k. length ls \<le> k \<and> k < length (ls @ [l]) \<longrightarrow> header_title ((ls @ [l]) ! k) = None"
    using assms(1) by (auto simp: nth_append less_Suc_eq)
  moreover have "(ls @ [l]) ! length ls = l" by simp
  moreover have "length ls < length (ls @ [l])" by simp
  ultimately show ?thesis using assms(2) by metis
qed

lemma category_started:
  assumes "header_title l = Some c"
  shows "\<exists>i<length (ls @ [l]). header_title ((ls @ [l]) ! i) = Some c
           \<and> (\<forall>k. i < k \<and> k < length (ls @ [l]) \<longrightarrow> header_title ((ls @ [l]) ! k) = None)"
proof -
  have "\<forall>k. length ls < k \<and> k < length (ls @ [l]) \<longrightarrow> header_title ((ls @ [l]) ! k) = None"
    by auto
  moreover have "header_title ((ls @ [l]) ! length ls) = Some c" using assms by simp
  moreover have "length ls < length (ls @ [l])" by simp
  ultimately show ?thesis by blast
qed

lemma parse_line_inv:
  assumes inv: "parser_inv ls st"
  shows "parser_inv (ls @ [l]) (parse_line st l)"
proof -
  let ?ls = "ls @ [l]"
  from inv have D: "\<forall>d\<in>set (datasets st). record_placed ls d"
    and C: "current_category st \<noteq> [] \<longrightarrow>
            (\<exists>i<length ls. header_title (ls ! i) = Some (current_category st)
               \<and> (\<forall>k. i < k \<and> k < length ls \<longrightarrow> header_title (ls ! k) = None))"
    and B: "current_dataset_lines st \<noteq> [] \<longrightarrow>
            (\<exists>j<length ls. ls ! j = hd (current_dataset_lines st)
               \<and> startswith (strip (ls ! j)) ''__''
               \<and> (\<forall>k. j \<le> k \<and> k < length ls \<longrightarrow> header_title (ls ! k) = None))"
    and I: "in_dataset st \<longrightarrow> current_dataset_lines st \<noteq> []"
    unfolding parser_inv_def by blast+
  have D': "\<forall>d\<in>set (datasets st). record_placed ?ls d"
    using D record_placed_snoc by blast
  have F': "\<forall>d\<in>set (flush st). record_placed ?ls d"
    using flush_placed [OF inv] record_placed_snoc by blast
  show ?thesis
  proof (cases "category_match (strip l)")
    case (Some g)
    then have ht: "header_title l = Some (strip g)" by (simp add: header_title_def)
    have st': "parse_line st l =
       \<lparr>current_category = strip g, current_dataset_lines = [], in_dataset = False,
        datasets = flush st\<rparr>"
      using Some by (rule parse_line_header)
    show ?thesis
      unfolding parser_inv_def st' using F' category_started [OF ht, of ls] by simp
  next
    case None
    then have ht: "header_title l = None" by (rule header_title_None)
    have C': "current_category st \<noteq> [] \<longrightarrow>
            (\<exists>i<length ?ls. header_title (?ls ! i) = Some (current_category st)
               \<and> (\<forall>k. i < k \<and> k < length ?ls \<longrightarrow> header_title (?ls ! k) = None))"
      using C category_kept [OF ht] by blast
    have B': "current_dataset_lines st \<noteq> [] \<longrightarrow>
            (\<exists>j<length ?ls. ?ls ! j = hd (current_dataset_lines st)
               \<and> startswith (strip (?ls ! j)) ''__''
               \<and> (\<forall>k. j \<le> k \<and> k < length ?ls \<longrightarrow> header_title (?ls ! k) = None))"
      using B buffer_kept [OF ht] by blast
    show ?thesis
    proof (cases "strip l = ''***''")
      case True
      have st': "parse_line st l =
         \<lparr>current_category = current_category st, current_dataset_lines = [],
          in_dataset = False, datasets = flush st\<rparr>"
        using None True by (simp add: parse_line_def)
      show ?thesis unfolding parser_inv_def st' using F' C' by simp
    next
      case sep: False
      show ?thesis
      proof (cases "startswith (strip l) ''__'' \<and> current_category st \<noteq> []")
        case True
        then have t: "startswith (strip l) ''__''" and c: "current_category st \<noteq> []"
          by simp_all
        have st': "parse_line st l =
           \<lparr>current_category = current_category st, current_dataset_lines = [l],
            in_dataset = True,
            datasets = (if current_dataset_lines st \<noteq> []
                        then datasets st
                               @ [dataset_of_section (current_dataset_lines st) (current_category st)]
                        else datasets st)\<rparr>"
          using t c by (rule parse_line_title)
        have E: "current_dataset_lines st \<noteq> [] \<longrightarrow>
              record_placed ?ls (dataset_of_section (current_dataset_lines st) (current_category st))"
          using emitted_record_placed [OF inv _ c] record_placed_snoc by blast
        have N: "\<exists>j<length ?ls. ?ls ! j = l \<and> startswith (strip (?ls ! j)) ''__''
           \<and> (\<forall>k. j \<le> k \<and> k < length ?ls \<longrightarrow> header_title (?ls ! k) = None)"
          using ht t by (rule buffer_started)
        show ?thesis unfolding parser_inv_def st' using D' E C' N by simp
      next
        case nt: False
        show ?thesis
        proof (cases "in_dataset st \<and> strip l \<noteq> []")
          case True
          have st': "parse_line st l =
             st\<lparr>current_dataset_lines := current_dataset_lines st @ [l]\<rparr>"
            using None sep nt True by (auto simp: parse_line_def)
          from True I have ne: "current_dataset_lines st \<noteq> []" by simp
          then have hd: "hd (current_dataset_lines st @ [l]) = hd (current_dataset_lines st)"
            by simp
          show ?thesis unfolding parser_inv_def st' using D' C' B' ne hd by simp
        next
          case False
          have st': "parse_line st l = st"
            using None sep nt False by (auto simp: parse_line_def)
          show ?thesis unfolding parser_inv_def st' using D' C' B' I by simp
        qed
      qed
    qed
  qed
qed

lemma foldl_parse_line_inv:
  "parser_inv ls
     (foldl parse_line
        \<lparr>current_category = [], current_dataset_lines = [], in_dataset = False, datasets = []\<rparr>
        ls)"
proof (induction ls rule: rev_induct)
  case Nil
  show ?case by (simp add: parser_inv_def)
next
  case (snoc l ls)
  from parse_line_inv [OF snoc.IH, of l] show ?case by simp
qed

lemma parse_lines_placed: "d \<in> set (parse_lines ls []) \<Longrightarrow> record_placed ls d"
  using flush_placed [OF foldl_parse_line_inv, of ls] by (simp add: parse_lines_def)

text \<open>
  Claim C8. Every record in the output of the parser has a non-empty name and a non-empty
  category. Its title line is a line of the document, some numbered section header
  stands before that line, and the category is the trimmed title of the last such header
  before it; so no record is emitted before a header has been seen.
\<close>

theorem record_category_is_last_header:
  assumes "parse_readme (Some content) [] = Inr ds" and "d \<in> set ds"
  shows "name d \<noteq> [] \<and> category d \<noteq> []
         \<and> (\<exists>i j. i < j \<and> j < length (split_lines content)
               \<and> header_title (split_lines content ! i) = Some (category d)
               \<and> (\<forall>k. i < k \<and> k < j \<longrightarrow> header_title (split_lines content ! k) = None)
               \<and> startswith (strip (split_lines content ! j)) ''__''
               \<and> name d = sub_delim ''__'' (strip (split_lines content ! j))
               \<and> (\<exists>rest. raw_text d = join [newline] (split_lines content ! j # rest)))"
proof -
  from assms have "d \<in> set (parse_lines (split_lines content) [])"
    by (auto simp: parse_readme_def)
  then have "record_placed (split_lines content) d" by (rule parse_lines_placed)
  then show ?thesis unfolding record_placed_def .
qed

theorem record_category_is_last_header_witness:
  "name beta_set \<noteq> [] \<and> category beta_set \<noteq> []
   \<and> (\<exists>i j. i < j \<and> j < length (split_lines example_document)
         \<and> header_title (split_lines example_document ! i) = Some (category beta_set)
         \<and> startswith (strip (split_lines example_document ! j)) ''__''
         \<and> name beta_set = sub_delim ''__'' (strip (split_lines example_document ! j)))"
proof -
  have p: "parse_readme (Some example_document) [] = Inr [alpha_set, beta_set]"
    by code_simp
  have m: "beta_set \<in> set [alpha_set, beta_set]" by simp
  from record_category_is_last_header [OF p m] show ?thesis by blast
qed


section \<open>Summary statistics\<close>

lemma track_category_desc: "description_stats (track_category d s) = description_stats s"
  by (simp add: track_category_def)

lemma track_urls_desc: "description_stats (track_urls d s) = description_stats s"
  by (simp add: track_urls_def Let_def)

lemma track_registration_desc: "description_stats (track_registration d s) = description_stats s"
  by (simp add: track_registration_def)

lemma track_description_desc:
  "description_stats (fst (track_description d (s, l))) =
     (if description d \<noteq> [] then
        (description_stats s)\<lparr>with_description := with_description (description_stats s) + 1,
           max_description_length := max (max_description_length (description_stats s)) (length (description d)),
           min_description_length := min (min_description_length (description_stats s)) (enat (length (description d)))\<rparr>
      else description_stats s)"
  by (simp add: track_description_def Let_def)

lemma stats_step_desc:
  "description_stats (fst (stats_step (s, l) d)) =
     (if description d \<noteq> [] then
        (description_stats s)\<lparr>with_description := with_description (description_stats s) + 1,
           max_description_length := max (max_description_length (description_stats s)) (length (description d)),
           min_description_length := min (min_description_length (description_stats s)) (enat (length (description d)))\<rparr>
      else description_stats s)"
  unfolding stats_step_def prod.case track_description_desc
  by (simp only: track_category_desc track_urls_desc track_registration_desc)

lemma stats_step_lengths:
  "snd (stats_step (s, l) d) = (if description d \<noteq> [] then l @ [length (description d)] else l)"
  by (simp add: stats_step_def track_description_def Let_def)

lemma stats_loop_invariant:
  "snd (foldl stats_step (stats_init ds0, []) ds) = desc_lengths ds
   \<and> with_description (description_stats (fst (foldl stats_step (stats_init ds0, []) ds)))
        = length (desc_lengths ds)
   \<and> average_description_length (description_stats (fst (foldl stats_step (stats_init ds0, []) ds))) = 0
   \<and> max_description_length (description_stats (fst (foldl stats_step (stats_init ds0, []) ds)))
        = Max (insert 0 (set (desc_lengths ds)))
   \<and> min_description_length (description_stats (fst (foldl stats_step (stats_init ds0, []) ds)))
        = (if desc_lengths ds = [] then \<infinity> else enat (Min (set (desc_lengths ds))))"
proof (induction ds rule: rev_induct)
  case Nil
  show ?case by (simp add: stats_init_def desc_lengths_def)
next
  case (snoc d ds)
  obtain s l where sl: "foldl stats_step (stats_init ds0, []) ds = (s, l)"
    by (cases "foldl stats_step (stats_init ds0, []) ds")
  from snoc sl have l: "l = desc_lengths ds"
    and w: "with_description (description_stats s) = length (desc_lengths ds)"
    and a: "average_description_length (description_stats s) = 0"
    and mx: "max_description_length (description_stats s) = Max (insert 0 (set (desc_lengths ds)))"
    and mn: "min_description_length (description_stats s)
               = (if desc_lengths ds = [] then \<infinity> else enat (Min (set (desc_lengths ds))))"
    by simp_all
  show ?case
  proof (cases "description d = []")
    case True
    then have "desc_lengths (ds @ [d]) = desc_lengths ds" by (simp add: desc_lengths_def)
    with True l w a mx mn sl show ?thesis
      by (simp add: stats_step_desc stats_step_lengths)
  next
    case False
    then have dl: "desc_lengths (ds @ [d]) = desc_lengths ds @ [length (description d)]"
      by (simp add: desc_lengths_def)
    have mx': "max (Max (insert 0 (set (desc_lengths ds)))) (length (description d))
                 = Max (insert 0 (set (desc_lengths ds @ [length (description d)])))"
    proof -
      have "insert 0 (set (desc_lengths ds @ [length (description d)]))
              = insert (length (description d)) (insert 0 (set (desc_lengths ds)))"
        by auto
      then show ?thesis by (simp add: max.commute del: set_append)
    qed
    have mn': "min (if desc_lengths ds = [] then \<infinity> else enat (Min (set (desc_lengths ds))))
                   (enat (length (description d)))
                 = enat (Min (set (desc_lengths ds @ [length (description d)])))"
      by (cases "desc_lengths ds = []") (simp_all add: min.commute min_def)
    from False l w a mx mn sl show ?thesis
      unfolding dl
      by (simp add: stats_step_desc stats_step_lengths mx' mn' del: Max_insert Min_insert set_append)
  qed
qed

lemma desc_lengths_Nil: "(desc_lengths ds = []) = (\<forall>d\<in>set ds. description d = [])"
  by (auto simp: desc_lengths_def filter_empty_conv)

text \<open>
  Claim C9. For a non-empty list of records, \<open>create_summary_statistics\<close> returns a
  result whose minimum description length is never the infinite start value. When no
  record has a description, the minimum, the number of records with a description and
  the average are all 0; when some record has one, the minimum and the maximum are the
  least and the greatest length among the non-empty descriptions.
\<close>

theorem description_statistics_min_max:
  assumes "ds \<noteq> []"
  shows "\<exists>s. create_summary_statistics (PyList ds) = Inr s
           \<and> min_description_length (description_stats s) \<noteq> \<infinity>
           \<and> ((\<forall>d\<in>set ds. description d = []) \<longrightarrow>
                 min_description_length (description_stats s) = 0
                 \<and> with_description (description_stats s) = 0
                 \<and> average_description_length (description_stats s) = 0)
           \<and> ((\<exists>d\<in>set ds. description d \<noteq> []) \<longrightarrow>
                 min_description_length (description_stats s)
                   = enat (Min (set (map (\<lambda>d. length (description d))
                                      (filter (\<lambda>d. description d \<noteq> []) ds))))
                 \<and> max_description_length (description_stats s)
                   = Max (set (map (\<lambda>d. length (description d))
                                (filter (\<lambda>d. description d \<noteq> []) ds))))"
proof -
  obtain s l where sl: "foldl stats_step (stats_init ds, []) ds = (s, l)"
    by (cases "foldl stats_step (stats_init ds, []) ds")
  from stats_loop_invariant [of ds ds] sl
  have l: "l = desc_lengths ds"
    and w: "with_description (description_stats s) = length (desc_lengths ds)"
    and a: "average_description_length (description_stats s) = 0"
    and mx: "max_description_length (description_stats s) = Max (insert 0 (set (desc_lengths ds)))"
    and mn: "min_description_length (description_stats s)
               = (if desc_lengths ds = [] then \<infinity> else enat (Min (set (desc_lengths ds))))"
    by simp_all
  have res: "create_summary_statistics (PyList ds) = Inr (stats_finish (s, l))"
    using assms sl by (simp add: create_summary_statistics_def)
  let ?r = "stats_finish (s, l)"
  let ?L = "map (\<lambda>d. length (description d)) (filter (\<lambda>d. description d \<noteq> []) ds)"
  have L: "desc_lengths ds = ?L" by (simp add: desc_lengths_def)
  show ?thesis
  proof (cases "desc_lengths ds = []")
    case True
    then have none: "\<forall>d\<in>set ds. description d = []" by (simp add: desc_lengths_Nil)
    from True l w a have z:
      "min_description_length (description_stats ?r) = 0"
      "with_description (description_stats ?r) = 0"
      "average_description_length (description_stats ?r) = 0"
      by (simp_all add: stats_finish_def Let_def)
    then have c1: "min_description_length (description_stats ?r) \<noteq> \<infinity>"
      by (simp add: zero_enat_def)
    have c3: "(\<exists>d\<in>set ds. description d \<noteq> []) \<longrightarrow>
                 min_description_length (description_stats ?r) = enat (Min (set ?L))
                 \<and> max_description_length (description_stats ?r) = Max (set ?L)"
      using none by blast
    from res c1 z c3 show ?thesis by blast
  next
    case False
    then have some: "\<not> (\<forall>d\<in>set ds. description d = [])" by (simp add: desc_lengths_Nil)
    have "Max (insert 0 (set (desc_lengths ds))) = Max (set (desc_lengths ds))"
      using False by (simp add: max_def)
    with False l mx mn have m:
      "min_description_length (description_stats ?r) = enat (Min (set (desc_lengths ds)))"
      "max_description_length (description_stats ?r) = Max (set (desc_lengths ds))"
      by (simp_all add: stats_finish_def Let_def)
    then have c1: "min_description_length (description_stats ?r) \<noteq> \<infinity>" by simp
    have c2: "(\<forall>d\<in>set ds. description d = []) \<longrightarrow>
                 min_description_length (description_stats ?r) = 0
                 \<and> with_description (description_stats ?r) = 0
                 \<and> average_description_length (description_stats ?r) = 0"
      using some by blast
    from res c1 c2 m [unfolded L] show ?thesis by blast
  qed
qed

theorem description_statistics_min_max_witness:
  "(\<exists>s. create_summary_statistics (PyList [beta_set]) = Inr s
        \<and> min_description_length (description_stats s) = 0
        \<and> with_description (description_stats s) = 0
        \<and> average_description_length (description_stats s) = 0)
   \<and> (\<exists>s. create_summary_statistics (PyList [beta_set, alpha_set]) = Inr s
        \<and> min_description_length (description_stats s) = enat 43
        \<and> max_description_length (description_stats s) = 43)"
proof -
  have d: "description beta_set = []" "description alpha_set \<noteq> []"
    "length (description alpha_set) = 43"
    by (simp_all add: beta_set_def alpha_set_def)
  have "[beta_set] \<noteq> []" by simp
  from description_statistics_min_max [OF this] d
  have 1: "\<exists>s. create_summary_statistics (PyList [beta_set]) = Inr s
        \<and> min_description_length (description_stats s) = 0
        \<and> with_description (description_stats s) = 0
        \<and> average_description_length (description_stats s) = 0"
    by auto
  have "[beta_set, alpha_set] \<noteq> []" by simp
  from description_statistics_min_max [OF this] d
  have 2: "\<exists>s. create_summary_statistics (PyList [beta_set, alpha_set]) = Inr s
        \<and> min_description_length (description_stats s) = enat 43
        \<and> max_description_length (description_stats s) = 43"
    by auto
  from 1 2 show ?thesis by blast
qed

text \<open>
  Claim C10. \<open>create_summary_statistics\<close> raises \<open>ValueError\<close> on the empty list and
  \<open>TypeError\<close> on an argument that is not a list; it never returns statistics for the
  empty list.
\<close>

theorem create_summary_statistics_degenerate:
  "create_summary_statistics (PyList []) = Inl ValueError
   \<and> create_summary_statistics PyOther = Inl TypeError
   \<and> (\<forall>s. create_summary_statistics (PyList []) \<noteq> Inr s)"
  by (simp add: create_summary_statistics_def)

end
